theory Spec2Isabelle
  imports Main "HOL-Library.Sublist" "HOL-Library.Multiset"
begin

section \<open>Strings\<close>

text \<open>
  A JavaScript string is modelled as a \<^typ>\<open>string\<close>: the list of its code units, here
  the code units below 256. \<open>s.includes(t)\<close> holds when \<open>t\<close> occurs in \<open>s\<close> as a
  contiguous block of code units, and \<open>s.startsWith(t)\<close> when \<open>t\<close> is a prefix of \<open>s\<close>.
\<close>

definition str_includes :: "string \<Rightarrow> string \<Rightarrow> bool" where
  "str_includes s t = sublist t s"

definition startsWith :: "string \<Rightarrow> string \<Rightarrow> bool" where
  "startsWith s t = prefix t s"

section \<open>The retry-rotation executor (services/geminiService.ts)\<close>

text \<open>
  A thrown value is an \<open>Error\<close> object: its \<open>name\<close> and its \<open>message\<close>, which the
  source reads as \<open>err.message?\<close> and which may therefore be undefined.
\<close>

datatype error = Error (errName: string) (message: "string option")

text \<open>The client object built by \<open>new GoogleGenAI({ apiKey: ... })\<close>.\<close>

datatype GoogleGenAI = GoogleGenAI (apiKey: "string option")

text \<open>
  \<open>createAi(key)\<close> takes \<open>key || process.env.API_KEY\<close>: the key when it is given and not
  the empty string, the environment's key otherwise. The environment's key is the
  parameter \<open>envKey\<close>.
\<close>

definition createAi :: "string option \<Rightarrow> string option \<Rightarrow> GoogleGenAI" where
  "createAi envKey key =
     GoogleGenAI (case key of
                    None \<Rightarrow> envKey
                  | Some k \<Rightarrow> if k \<noteq> [] then Some k else envKey)"

text \<open>
  The classification of lines 38 to 44: an undefined message makes every disjunct
  undefined, which is falsy.
\<close>

definition isRetryable :: "error \<Rightarrow> bool" where
  "isRetryable err =
     (case message err of
        None \<Rightarrow> False
      | Some m \<Rightarrow>
          str_includes m ''429'' \<or>
          str_includes m ''403'' \<or>
          str_includes m ''quota'' \<or>
          str_includes m ''key'' \<or>
          str_includes m ''PERMISSION_DENIED'' \<or>
          str_includes m ''RESOURCE_EXHAUSTED'')"

text \<open>
  An operation is an asynchronous closure over the provider: given the client it either
  resolves to a value or rejects with an error, and it may change the world \<open>'w\<close> (the
  provider's state, the network) while doing so.
\<close>

type_synonym ('a, 'w) operation = "GoogleGenAI \<Rightarrow> 'w \<Rightarrow> (error + 'a) \<times> 'w"

text \<open>
  The \<open>for (const key of customKeys)\<close> loop with its \<open>try\<close>/\<open>catch\<close>, and the
  \<open>throw lastError || new Error("All API keys failed.")\<close> after it. An \<open>Error\<close> object
  is truthy, so \<open>lastError\<close> is replaced only while it is still undefined. The
  \<open>console.warn\<close> before each rotation writes a diagnostic and is not modelled.
\<close>

fun tryKeys :: "string option \<Rightarrow> ('a, 'w) operation \<Rightarrow> string list \<Rightarrow> error option \<Rightarrow> 'w
                \<Rightarrow> (error + 'a) \<times> 'w" where
  "tryKeys envKey operation [] lastError w =
     (Inl (case lastError of
             Some e \<Rightarrow> e
           | None \<Rightarrow> Error ''Error'' (Some ''All API keys failed.'')), w)"
| "tryKeys envKey operation (key # rest) lastError w =
     (case operation (createAi envKey (Some key)) w of
        (Inr v, w') \<Rightarrow> (Inr v, w')
      | (Inl err, w') \<Rightarrow>
          if \<not> isRetryable err then (Inl err, w')
          else tryKeys envKey operation rest (Some err) w')"

definition executeWithRetry :: "string option \<Rightarrow> string list \<Rightarrow> ('a, 'w) operation \<Rightarrow> 'w
                                 \<Rightarrow> (error + 'a) \<times> 'w" where
  "executeWithRetry envKey customKeys operation w =
     (if customKeys = [] then operation (createAi envKey None) w
      else tryKeys envKey operation customKeys None w)"

subsection \<open>Observing the attempts\<close>

text \<open>
  To speak about which invocations the executor makes, an operation is wrapped so that
  it appends every invocation (the client it was given and its outcome) to a trace kept
  beside the world. The executor is run unchanged on the wrapped operation.
\<close>

type_synonym 'a trace = "(GoogleGenAI \<times> (error + 'a)) list"

definition recording :: "('a, 'w) operation \<Rightarrow> ('a, 'w \<times> 'a trace) operation" where
  "recording operation ai =
     (\<lambda>(w, tr). case operation ai w of (r, w') \<Rightarrow> (r, (w', tr @ [(ai, r)])))"

text \<open>
  The outcomes the operation gives when it is invoked on each client of a list in turn,
  whatever the outcomes are: the \<open>i\<close>-th entry is what the \<open>i\<close>-th invocation yields after
  the ones before it have run.
\<close>

fun attempts :: "('a, 'w) operation \<Rightarrow> GoogleGenAI list \<Rightarrow> 'w \<Rightarrow> (error + 'a) list" where
  "attempts operation [] w = []"
| "attempts operation (ai # ais) w =
     (case operation ai w of (r, w') \<Rightarrow> r # attempts operation ais w')"

text \<open>An outcome makes the executor rotate when it is a failure classified retryable.\<close>

definition rotates :: "error + 'a \<Rightarrow> bool" where
  "rotates r = (case r of Inl e \<Rightarrow> isRetryable e | Inr v \<Rightarrow> False)"

text \<open>The clients the executor builds for a credential store, in store order.\<close>

definition clients :: "string option \<Rightarrow> string list \<Rightarrow> GoogleGenAI list" where
  "clients envKey customKeys = map (\<lambda>key. createAi envKey (Some key)) customKeys"

subsection \<open>A scripted operation for the examples\<close>

text \<open>
  An operation whose world is a script of outcomes: each invocation, whatever the client,
  yields the next outcome of the script and consumes it.
\<close>

fun scripted :: "('a, (error + 'a) list) operation" where
  "scripted ai [] = (Inl (Error ''Error'' None), [])"
| "scripted ai (out # outs) = (out, outs)"

section \<open>Text functions used by the parsers\<close>

text \<open>
  White space as \<open>\s\<close> and \<open>String.prototype.trim\<close> see it, among the code units below
  256: tab, line feed, vertical tab, form feed, carriage return, space and the
  no-break space.
\<close>

definition isSpace :: "char \<Rightarrow> bool" where
  "isSpace c = (c \<in> set [CHR 0x09, CHR 0x0A, CHR 0x0B, CHR 0x0C, CHR 0x0D, CHR 0x20, CHR 0xA0])"

definition trim :: "string \<Rightarrow> string" where
  "trim s = rev (dropWhile isSpace (rev (dropWhile isSpace s)))"

text \<open>
  Under the \<open>i\<close> flag two code units match when their canonical forms are equal. The
  headers are made of upper-case ASCII letters, \<open>_\<close> and \<open>:\<close>, and no code unit
  outside ASCII has an ASCII canonical form, so it is enough to fold \<open>a\<close> to \<open>z\<close>.
\<close>

definition canonicalize :: "char \<Rightarrow> char" where
  "canonicalize c =
     (let n = (of_char c :: nat) in if 97 \<le> n \<and> n \<le> 122 then char_of (n - 32) else c)"

text \<open>A literal of a pattern with the \<open>i\<close> flag, matched at the start of \<open>s\<close>.\<close>

definition matchLiteral :: "string \<Rightarrow> string \<Rightarrow> bool" where
  "matchLiteral lit s =
     (length lit \<le> length s \<and> map canonicalize (take (length lit) s) = map canonicalize lit)"

text \<open>
  \<open>text.match(/HEADER.../i)\<close> tries the start positions from left to right. In the three
  patterns below everything after the header literal can match the empty string before
  the end of the text, so the match starts at the leftmost position where the header
  literal matches. The result is the text after that header, or \<open>None\<close> for a null
  match.
\<close>

fun searchHeader :: "string \<Rightarrow> string \<Rightarrow> string option" where
  "searchHeader hdr [] = (if matchLiteral hdr [] then Some (drop (length hdr) []) else None)"
| "searchHeader hdr (c # cs) =
     (if matchLiteral hdr (c # cs) then Some (drop (length hdr) (c # cs))
      else searchHeader hdr cs)"

text \<open>
  The group \<open>([\s\S]*?)\<close> before a lookahead \<open>(?=STOP1|STOP2|$)\<close>: it takes code units one
  at a time and ends at the first position where a stop literal matches or the text
  ends. With no stop literal it is the group before \<open>$\<close>.
\<close>

fun lazyUntil :: "string list \<Rightarrow> string \<Rightarrow> string" where
  "lazyUntil stops [] = []"
| "lazyUntil stops (c # cs) =
     (if list_ex (\<lambda>stop. matchLiteral stop (c # cs)) stops then []
      else c # lazyUntil stops cs)"

text \<open>
  Group 1 of \<open>/HEADER\s*([\s\S]*?)(?=STOPS|$)/i\<close>: the greedy \<open>\s*\<close> takes all the white
  space after the header, and is never given back since the rest always matches.
\<close>

definition matchSection :: "string \<Rightarrow> string list \<Rightarrow> string \<Rightarrow> string option" where
  "matchSection hdr stops text =
     (case searchHeader hdr text of
        None \<Rightarrow> None
      | Some rest \<Rightarrow> Some (lazyUntil stops (dropWhile isSpace rest)))"

text \<open>\<open>s.split('\n')\<close>: the pieces between line feeds; the empty string gives one empty piece.\<close>

fun splitLines :: "string \<Rightarrow> string list" where
  "splitLines [] = [[]]"
| "splitLines (c # cs) =
     (if c = CHR 0x0A then [] # splitLines cs
      else (case splitLines cs of
              [] \<Rightarrow> [[c]]
            | l # ls \<Rightarrow> (c # l) # ls))"

text \<open>\<open>f.replace(/^-\s*/, '')\<close>: a hyphen at the very start and the white space after it.\<close>

definition stripMarker :: "string \<Rightarrow> string" where
  "stripMarker f =
     (case f of
        [] \<Rightarrow> []
      | c # cs \<Rightarrow> if c = CHR ''-'' then dropWhile isSpace cs else f)"

section \<open>The prompt builder\<close>

text \<open>
  The level and the style reach the functions as strings (their union types are erased
  at run time); every value outside the listed cases takes the default branch.
\<close>

definition getLevelInstruction :: "string \<Rightarrow> string" where
  "getLevelInstruction level =
     (if level = ''Elementary'' then
        ''Target Audience: Elementary School (Ages 6-10). Style: Bright, simple, fun. Use large clear icons and very minimal text labels. Explanation tone: Storytelling, very simple words.''
      else if level = ''High School'' then
        ''Target Audience: High School. Style: Standard Textbook. Clean lines, clear labels, accurate maps or diagrams. Explanation tone: Educational, structured, definitions of key terms.''
      else if level = ''College'' then
        ''Target Audience: University. Style: Academic Journal. High detail, data-rich, precise cross-sections or complex schematics. Explanation tone: Academic, detailed analysis, historical context.''
      else if level = ''Expert'' then
        ''Target Audience: Industry Expert. Style: Technical Blueprint/Schematic. Extremely dense detail, monochrome or technical coloring, precise annotations. Explanation tone: Technical whitepaper, high density of information.''
      else
        ''Target Audience: General Public. Style: Clear and engaging.'')"

definition getStyleInstruction :: "string \<Rightarrow> string" where
  "getStyleInstruction style =
     (if style = ''Minimalist'' then
        ''Aesthetic: Bauhaus Minimalist. Flat vector art, limited color palette (2-3 colors), reliance on negative space and simple geometric shapes.''
      else if style = ''Realistic'' then
        ''Aesthetic: Photorealistic Composite. Cinematic lighting, 8k resolution, highly detailed textures. Looks like a photograph.''
      else if style = ''Cartoon'' then
        ''Aesthetic: Educational Comic. Vibrant colors, thick outlines, expressive cel-shaded style.''
      else if style = ''Vintage'' then
        ''Aesthetic: 19th Century Scientific Lithograph. Engraving style, sepia tones, textured paper background, fine hatch lines.''
      else if style = ''Futuristic'' then
        ''Aesthetic: Cyberpunk HUD. Glowing neon blue/cyan lines on dark background, holographic data visualization, 3D wireframes.''
      else if style = ''3D Render'' then
        ''Aesthetic: 3D Isometric Render. Claymorphism or high-gloss plastic texture, studio lighting, soft shadows, looks like a physical model.''
      else if style = ''Sketch'' then
        ''Aesthetic: Da Vinci Notebook. Ink on parchment sketch, handwritten annotations style, rough but accurate lines.''
      else
        ''Aesthetic: High-quality digital scientific illustration. Clean, modern, highly detailed.'')"

section \<open>The provider's requests and responses\<close>

record Blob =
  data :: "string option"
  mimeType :: "string option"

record Part =
  partText :: "string option"
  inlineData :: "Blob option"

record Content =
  parts :: "Part list option"

record Web =
  uri :: "string option"
  webTitle :: "string option"

record GroundingChunk =
  web :: "Web option"

record GroundingMetadata =
  groundingChunks :: "GroundingChunk list option"

record Candidate =
  content :: "Content option"
  groundingMetadata :: "GroundingMetadata option"

record Response =
  responseText :: "string option"
  candidates :: "Candidate list option"

record Request =
  model :: string
  contents :: "Part list"

text \<open>\<open>response.candidates?.[0]\<close>: undefined without candidates or with an empty array.\<close>

definition firstCandidate :: "Response \<Rightarrow> Candidate option" where
  "firstCandidate response =
     (case candidates response of
        None \<Rightarrow> None
      | Some [] \<Rightarrow> None
      | Some (c # cs) \<Rightarrow> Some c)"

section \<open>The research orchestrator\<close>

record SearchResultItem =
  title :: string
  url :: string

record ResearchResult =
  imagePrompt :: string
  facts :: "string list"
  searchResults :: "SearchResultItem list"
  articleContent :: string

text \<open>Lines 143 to 148: the facts.\<close>

definition parseFacts :: "string \<Rightarrow> string list" where
  "parseFacts text =
     (let factsMatch = matchSection ''FACTS:'' [''ARTICLE:'', ''IMAGE_PROMPT:''] text;
          factsRaw = (case factsMatch of Some g \<Rightarrow> trim g | None \<Rightarrow> [])
      in take 5 (filter (\<lambda>f. length f > 0)
                   (map (\<lambda>f. trim (stripMarker f)) (splitLines factsRaw))))"

text \<open>Lines 151 and 152: the article, with its placeholder (\<open>u\<close> acute and \<open>a\<close> tilde are
  the code units 250 and 227).\<close>

definition parseArticle :: "string \<Rightarrow> string" where
  "parseArticle text =
     (case matchSection ''ARTICLE:'' [''IMAGE_PROMPT:''] text of
        Some g \<Rightarrow> trim g
      | None \<Rightarrow> ''Conte'' @ [CHR 0xFA] @ ''do explicativo n'' @ [CHR 0xE3] @ ''o gerado.'')"

text \<open>Lines 155 and 156: the image prompt, with the prompt synthesized when the pattern
  does not match.\<close>

definition parseImagePrompt :: "string \<Rightarrow> string \<Rightarrow> string \<Rightarrow> string \<Rightarrow> string" where
  "parseImagePrompt topic levelInstr styleInstr text =
     (case matchSection ''IMAGE_PROMPT:'' [] text of
        Some g \<Rightarrow> trim g
      | None \<Rightarrow> ''Create a detailed infographic about '' @ topic @ ''. '' @ levelInstr
                  @ '' '' @ styleInstr)"

text \<open>\<open>response.candidates?.[0]?.groundingMetadata?.groundingChunks\<close>.\<close>

definition responseChunks :: "Response \<Rightarrow> GroundingChunk list option" where
  "responseChunks response =
     (case firstCandidate response of
        None \<Rightarrow> None
      | Some c \<Rightarrow> (case groundingMetadata c of
                     None \<Rightarrow> None
                   | Some gm \<Rightarrow> groundingChunks gm))"

text \<open>A string that may be undefined is truthy when it is defined and not empty.\<close>

definition truthy :: "string option \<Rightarrow> bool" where
  "truthy s = (case s of None \<Rightarrow> False | Some v \<Rightarrow> v \<noteq> [])"

text \<open>The \<open>forEach\<close> of lines 163 to 170: a chunk is pushed when
  \<open>chunk.web?.uri && chunk.web?.title\<close> is truthy.\<close>

fun collectResults :: "GroundingChunk list \<Rightarrow> SearchResultItem list" where
  "collectResults [] = []"
| "collectResults (chunk # rest) =
     (case web chunk of
        None \<Rightarrow> collectResults rest
      | Some w \<Rightarrow>
          (case (uri w, webTitle w) of
             (Some u, Some t) \<Rightarrow>
               if truthy (Some u) \<and> truthy (Some t)
               then \<lparr>title = t, url = u\<rparr> # collectResults rest
               else collectResults rest
           | _ \<Rightarrow> collectResults rest))"

text \<open>
  A JavaScript \<open>Map\<close> keeps its entries in the order in which their keys were first
  inserted; \<open>set\<close> on a key already present replaces the value where it stands.
  \<open>new Map(entries)\<close> sets the entries one after the other and \<open>values()\<close> lists the
  values in that order.
\<close>

fun mapSet :: "('k \<times> 'v) list \<Rightarrow> 'k \<Rightarrow> 'v \<Rightarrow> ('k \<times> 'v) list" where
  "mapSet [] k v = [(k, v)]"
| "mapSet ((k', v') # m) k v =
     (if k' = k then (k', v) # m else (k', v') # mapSet m k v)"

definition newMap :: "('k \<times> 'v) list \<Rightarrow> ('k \<times> 'v) list" where
  "newMap entries = foldl (\<lambda>m (k, v). mapSet m k v) [] entries"

definition mapValues :: "('k \<times> 'v) list \<Rightarrow> 'v list" where
  "mapValues m = map snd m"

text \<open>Line 174.\<close>

definition uniqueResults :: "SearchResultItem list \<Rightarrow> SearchResultItem list" where
  "uniqueResults results = mapValues (newMap (map (\<lambda>item. (url item, item)) results))"

text \<open>Lines 140 to 181: what the research operation makes of a response.\<close>

definition parseResearch :: "string \<Rightarrow> string \<Rightarrow> string \<Rightarrow> Response \<Rightarrow> ResearchResult" where
  "parseResearch topic level style response =
     (let levelInstr = getLevelInstruction level;
          styleInstr = getStyleInstruction style;
          text = (case responseText response of
                    None \<Rightarrow> []
                  | Some t \<Rightarrow> t);
          chunks = responseChunks response;
          found = (case chunks of None \<Rightarrow> [] | Some cs \<Rightarrow> collectResults cs)
      in \<lparr>imagePrompt = parseImagePrompt topic levelInstr styleInstr text,
          facts = parseFacts text,
          searchResults = uniqueResults found,
          articleContent = parseArticle text\<rparr>)"

text \<open>
  \<open>researchTopicForPrompt\<close>: the operation handed to the executor awaits the provider
  and parses its response; a rejection of the provider is the operation's rejection.
  The parameter \<open>generateContent\<close> is the call of lines 132 to 138 together with its
  request.
\<close>

definition researchTopicForPrompt ::
  "string option \<Rightarrow> string list \<Rightarrow> (Response, 'w) operation \<Rightarrow> string \<Rightarrow> string \<Rightarrow> string
     \<Rightarrow> 'w \<Rightarrow> (error + ResearchResult) \<times> 'w" where
  "researchTopicForPrompt envKey customKeys generateContent topic level style =
     executeWithRetry envKey customKeys
       (\<lambda>ai w. case generateContent ai w of
                  (Inl err, w') \<Rightarrow> (Inl err, w')
                | (Inr response, w') \<Rightarrow> (Inr (parseResearch topic level style response), w'))"

section \<open>The image orchestrator\<close>

definition IMAGE_MODEL :: string where
  "IMAGE_MODEL = ''gemini-2.5-flash-image''"

definition EDIT_MODEL :: string where
  "EDIT_MODEL = ''gemini-2.5-flash-image''"

text \<open>The provider's \<open>ai.models.generateContent(request)\<close> for the image calls.\<close>

type_synonym 'w provider = "GoogleGenAI \<Rightarrow> Request \<Rightarrow> 'w \<Rightarrow> (error + Response) \<times> 'w"

text \<open>\<open>response.candidates?.[0]?.content?.parts\<close>.\<close>

definition responseParts :: "Response \<Rightarrow> Part list option" where
  "responseParts response =
     (case firstCandidate response of
        None \<Rightarrow> None
      | Some c \<Rightarrow> (case content c of
                     None \<Rightarrow> None
                   | Some ct \<Rightarrow> parts ct))"

text \<open>
  The loop \<open>for (const part of parts)\<close> with its \<open>return\<close>, followed by the \<open>throw\<close>
  that is reached when the loop ends: \<open>part.inlineData && part.inlineData.data\<close> is
  truthy when the part has inline data whose \<open>data\<close> is a non-empty string.
\<close>

fun scanParts :: "string \<Rightarrow> Part list \<Rightarrow> error + string" where
  "scanParts failure [] = Inl (Error ''Error'' (Some failure))"
| "scanParts failure (part # rest) =
     (case inlineData part of
        None \<Rightarrow> scanParts failure rest
      | Some blob \<Rightarrow>
          (case data blob of
             None \<Rightarrow> scanParts failure rest
           | Some d \<Rightarrow>
               if d \<noteq> [] then Inr (''data:image/png;base64,'' @ d)
               else scanParts failure rest))"

definition extractImage :: "string \<Rightarrow> Response \<Rightarrow> error + string" where
  "extractImage failure response =
     (case responseParts response of
        None \<Rightarrow> Inl (Error ''Error'' (Some failure))
      | Some ps \<Rightarrow> scanParts failure ps)"

text \<open>The closure of lines 186 to 205.\<close>

definition generateOperation :: "'w provider \<Rightarrow> string \<Rightarrow> (string, 'w) operation" where
  "generateOperation generateContent prompt ai w =
     (case generateContent ai
             \<lparr>model = IMAGE_MODEL,
              contents = [\<lparr>partText = Some prompt, inlineData = None\<rparr>]\<rparr> w of
        (Inl err, w') \<Rightarrow> (Inl err, w')
      | (Inr response, w') \<Rightarrow> (extractImage ''Failed to generate image'' response, w'))"

definition generateInfographicImage ::
  "string option \<Rightarrow> string list \<Rightarrow> 'w provider \<Rightarrow> string \<Rightarrow> 'w \<Rightarrow> (error + string) \<times> 'w" where
  "generateInfographicImage envKey customKeys generateContent prompt =
     executeWithRetry envKey customKeys (generateOperation generateContent prompt)"

text \<open>\<open>currentImageBase64.replace(/^data:image\/(png|jpeg|jpg);base64,/, '')\<close>: the
  pattern is anchored and has no flag, so it removes one of three literal prefixes.\<close>

definition cleanBase64 :: "string \<Rightarrow> string" where
  "cleanBase64 currentImageBase64 =
     (if startsWith currentImageBase64 ''data:image/png;base64,''
        then drop (length ''data:image/png;base64,'') currentImageBase64
      else if startsWith currentImageBase64 ''data:image/jpeg;base64,''
        then drop (length ''data:image/jpeg;base64,'') currentImageBase64
      else if startsWith currentImageBase64 ''data:image/jpg;base64,''
        then drop (length ''data:image/jpg;base64,'') currentImageBase64
      else currentImageBase64)"

text \<open>The class \<open>[a-zA-Z+]\<close>.\<close>

definition isTypeChar :: "char \<Rightarrow> bool" where
  "isTypeChar c =
     (let n = (of_char c :: nat)
      in (97 \<le> n \<and> n \<le> 122) \<or> (65 \<le> n \<and> n \<le> 90) \<or> c = CHR ''+'')"

text \<open>
  Group 1 of \<open>currentImageBase64.match(/^data:(image\/[a-zA-Z+]+);base64,/)\<close>: the greedy
  class takes every type character, at least one, and \<open>;base64,\<close> has to follow; giving
  characters back cannot help, since the class excludes \<open>;\<close>.
\<close>

definition matchMimeType :: "string \<Rightarrow> string option" where
  "matchMimeType currentImageBase64 =
     (if startsWith currentImageBase64 ''data:image/'' then
        (let rest = drop (length ''data:image/'') currentImageBase64;
             ty = takeWhile isTypeChar rest
         in if ty \<noteq> [] \<and> startsWith (dropWhile isTypeChar rest) '';base64,''
            then Some (''image/'' @ ty) else None)
      else None)"

text \<open>Lines 243 to 268: the request of the edit operation.\<close>

definition editRequest :: "string \<Rightarrow> string \<Rightarrow> Request" where
  "editRequest currentImageBase64 editPrompt =
     (let mimeType = (case matchMimeType currentImageBase64 of
                        None \<Rightarrow> ''image/png''
                      | Some m \<Rightarrow> m)
      in \<lparr>model = EDIT_MODEL,
          contents =
            [\<lparr>partText = None,
              inlineData = Some \<lparr>data = Some (cleanBase64 currentImageBase64),
                                 mimeType = Some mimeType\<rparr>\<rparr>,
             \<lparr>partText = Some editPrompt, inlineData = None\<rparr>]\<rparr>)"

definition editOperation :: "'w provider \<Rightarrow> string \<Rightarrow> string \<Rightarrow> (string, 'w) operation" where
  "editOperation generateContent currentImageBase64 editPrompt ai w =
     (case generateContent ai (editRequest currentImageBase64 editPrompt) w of
        (Inl err, w') \<Rightarrow> (Inl err, w')
      | (Inr response, w') \<Rightarrow> (extractImage ''Failed to edit image'' response, w'))"

definition editInfographicImage ::
  "string option \<Rightarrow> string list \<Rightarrow> 'w provider \<Rightarrow> string \<Rightarrow> string \<Rightarrow> 'w
     \<Rightarrow> (error + string) \<times> 'w" where
  "editInfographicImage envKey customKeys generateContent currentImageBase64 editPrompt =
     executeWithRetry envKey customKeys
       (editOperation generateContent currentImageBase64 editPrompt)"

section \<open>The history (App.tsx)\<close>

record GeneratedImage =
  id_img :: string
  imageData :: string
  prompt :: string
  timestamp :: int
  level :: string
  style :: string
  language :: string
  imageArticleContent :: string

text \<open>\<open>restoreImage\<close> (lines 177 to 180): the state \<open>imageHistory\<close> is read and the value
  given to \<open>setImageHistory\<close> is returned as the new state.\<close>

definition restoreImage :: "GeneratedImage list \<Rightarrow> GeneratedImage \<Rightarrow> GeneratedImage list" where
  "restoreImage imageHistory img =
     (let newHistory = filter (\<lambda>i. id_img i \<noteq> id_img img) imageHistory
      in img # newHistory)"

section \<open>The credential store\<close>

text \<open>
  \<open>setApiKeys\<close> replaces the module's \<open>customKeys\<close> by the given keys without the blank
  ones; the new value of \<open>customKeys\<close> is returned.
\<close>

definition setApiKeys :: "string list \<Rightarrow> string list" where
  "setApiKeys keys = filter (\<lambda>k. length (trim k) > 0) keys"

subsection \<open>The transient-failure signals as the specification lists them\<close>

text \<open>
  The specification names status 429, status 403 and the indications of quota, of
  permission denial and of resource exhaustion. Read with the substrings the source
  uses for them, a message carries a listed signal when:
\<close>

definition listedSignal :: "string \<Rightarrow> bool" where
  "listedSignal m =
     (str_includes m ''429'' \<or>
      str_includes m ''403'' \<or>
      str_includes m ''quota'' \<or>
      str_includes m ''PERMISSION_DENIED'' \<or>
      str_includes m ''RESOURCE_EXHAUSTED'')"

subsection \<open>The parts of a response that carry an image\<close>



subsection \<open>The web references of a response\<close>

text \<open>
  The reference a grounding chunk contributes: its title and URI as an item, or nothing
  when the chunk has no \<open>web\<close> or when the title or the URI is missing, a field that is
  undefined or the empty string. The chunks of a response are those of its first
  candidate's grounding metadata, none when any of these is missing.
\<close>

definition webReference :: "GroundingChunk \<Rightarrow> SearchResultItem option" where
  "webReference chunk =
     (case web chunk of
        None \<Rightarrow> None
      | Some w \<Rightarrow>
          (case uri w of
             None \<Rightarrow> None
           | Some u \<Rightarrow>
               (case webTitle w of
                  None \<Rightarrow> None
                | Some t \<Rightarrow> if u = [] \<or> t = [] then None else Some \<lparr>title = t, url = u\<rparr>)))"

definition chunkList :: "Response \<Rightarrow> GroundingChunk list" where
  "chunkList response = (case responseChunks response of None \<Rightarrow> [] | Some cs \<Rightarrow> cs)"

subsection \<open>Sections of the model's text, as the specification words them\<close>

text \<open>
  A header is absent from a text when its literal matches at no position. It occurs
  first at the end of \<open>pre\<close> when the text is \<open>pre\<close>, then the header \<open>h\<close> up to letter
  case, then \<open>rest\<close>, and the literal matches at no position inside \<open>pre\<close>.
\<close>

definition headerAbsent :: "string \<Rightarrow> string \<Rightarrow> bool" where
  "headerAbsent hdr text = (\<forall>i\<le>length text. \<not> matchLiteral hdr (drop i text))"

definition firstHeader :: "string \<Rightarrow> string \<Rightarrow> string \<Rightarrow> string \<Rightarrow> string \<Rightarrow> bool" where
  "firstHeader hdr text pre h rest =
     (text = pre @ h @ rest \<and> map canonicalize h = map canonicalize hdr
      \<and> (\<forall>i<length pre. \<not> matchLiteral hdr (drop i text)))"



subsection \<open>Lines, trimming and list markers, as the specification words them\<close>






section \<open>Properties of the executor\<close>

lemma length_attempts: "length (attempts operation ais w) = length ais"
  by (induction ais arbitrary: w) (auto split: prod.splits)

lemma length_clients: "length (clients envKey keys) = length keys"
  by (simp add: clients_def)

lemma clients_Cons: "clients envKey (key # rest) = createAi envKey (Some key) # clients envKey rest"
  by (simp add: clients_def)

lemma rotates_Inl: "rotates (Inl e) = isRetryable e"
  by (simp add: rotates_def)

lemma rotates_Inr: "\<not> rotates (Inr v)"
  by (simp add: rotates_def)

lemma recording_apply:
  "recording operation ai (w, tr) = (case operation ai w of (r, w') \<Rightarrow> (r, (w', tr @ [(ai, r)])))"
  by (simp add: recording_def)

lemma tryKeys_recording:
  "tryKeys envKey (recording operation) keys le (w, tr0) = (r, (w', tr))
   \<Longrightarrow> tryKeys envKey operation keys le w = (r, w')"
proof (induction keys arbitrary: le w tr0)
  case Nil
  then show ?case by simp
next
  case (Cons key rest)
  obtain r1 w1 where op: "operation (createAi envKey (Some key)) w = (r1, w1)"
    by (cases "operation (createAi envKey (Some key)) w")
  show ?case
  proof (cases r1)
    case (Inr v)
    with Cons.prems op show ?thesis by (auto simp add: recording_apply)
  next
    case (Inl e)
    show ?thesis
    proof (cases "isRetryable e")
      case True
      with Cons.prems op Inl
      have "tryKeys envKey (recording operation) rest (Some e) (w1, tr0 @ [(createAi envKey (Some key), r1)]) = (r, (w', tr))"
        by (simp add: recording_apply)
      from Cons.IH [OF this] op Inl True show ?thesis by simp
    next
      case False
      with Cons.prems op Inl show ?thesis by (auto simp add: recording_apply)
    qed
  qed
qed

lemma tryKeys_stop:
  "k < length keys
   \<Longrightarrow> \<forall>i<k. rotates (attempts operation (clients envKey keys) w ! i)
   \<Longrightarrow> \<not> rotates (attempts operation (clients envKey keys) w ! k)
   \<Longrightarrow> fst (tryKeys envKey (recording operation) keys le (w, tr0))
         = attempts operation (clients envKey keys) w ! k
     \<and> snd (snd (tryKeys envKey (recording operation) keys le (w, tr0)))
         = tr0 @ take (Suc k) (zip (clients envKey keys) (attempts operation (clients envKey keys) w))"
proof (induction keys arbitrary: k le w tr0)
  case Nil
  then show ?case by simp
next
  case (Cons key rest)
  obtain r1 w1 where op: "operation (createAi envKey (Some key)) w = (r1, w1)"
    by (cases "operation (createAi envKey (Some key)) w")
  have outs: "attempts operation (clients envKey (key # rest)) w
              = r1 # attempts operation (clients envKey rest) w1"
    using op by (simp add: clients_Cons)
  show ?case
  proof (cases k)
    case 0
    with Cons.prems outs have nr: "\<not> rotates r1" by simp
    then show ?thesis using op outs 0
      by (cases r1) (simp_all add: recording_apply rotates_def clients_Cons)
  next
    case (Suc k')
    with Cons.prems outs have rot: "rotates r1" by auto
    then obtain e where r1: "r1 = Inl e" and re: "isRetryable e"
      by (cases r1) (simp_all add: rotates_def)
    have k': "k' < length rest" using Cons.prems Suc by simp
    have a: "\<forall>i<k'. rotates (attempts operation (clients envKey rest) w1 ! i)"
      using Cons.prems(2) outs Suc by auto
    have b: "\<not> rotates (attempts operation (clients envKey rest) w1 ! k')"
      using Cons.prems(3) outs Suc by simp
    have step: "tryKeys envKey (recording operation) (key # rest) le (w, tr0)
                = tryKeys envKey (recording operation) rest (Some e)
                    (w1, tr0 @ [(createAi envKey (Some key), r1)])"
      using op r1 re by (simp add: recording_apply)
    show ?thesis
      using Cons.IH [OF k' a b, of "Some e" "tr0 @ [(createAi envKey (Some key), r1)]"]
      unfolding step outs Suc by (simp add: clients_Cons)
  qed
qed

lemma tryKeys_exhaust:
  "\<forall>i<length keys. rotates (attempts operation (clients envKey keys) w ! i)
   \<Longrightarrow> fst (tryKeys envKey (recording operation) keys le (w, tr0))
         = (if keys = []
            then Inl (case le of Some e \<Rightarrow> e | None \<Rightarrow> Error ''Error'' (Some ''All API keys failed.''))
            else last (attempts operation (clients envKey keys) w))
     \<and> snd (snd (tryKeys envKey (recording operation) keys le (w, tr0)))
         = tr0 @ zip (clients envKey keys) (attempts operation (clients envKey keys) w)"
proof (induction keys arbitrary: le w tr0)
  case Nil
  then show ?case by (simp add: clients_def)
next
  case (Cons key rest)
  obtain r1 w1 where op: "operation (createAi envKey (Some key)) w = (r1, w1)"
    by (cases "operation (createAi envKey (Some key)) w")
  have outs: "attempts operation (clients envKey (key # rest)) w
              = r1 # attempts operation (clients envKey rest) w1"
    using op by (simp add: clients_Cons)
  from Cons.prems outs have rot: "rotates r1" by auto
  then obtain e where r1: "r1 = Inl e" and re: "isRetryable e"
    by (cases r1) (simp_all add: rotates_def)
  have a: "\<forall>i<length rest. rotates (attempts operation (clients envKey rest) w1 ! i)"
    using Cons.prems outs by auto
  have step: "tryKeys envKey (recording operation) (key # rest) le (w, tr0)
              = tryKeys envKey (recording operation) rest (Some e)
                  (w1, tr0 @ [(createAi envKey (Some key), r1)])"
    using op r1 re by (simp add: recording_apply)
  have ne: "rest \<noteq> [] \<Longrightarrow> attempts operation (clients envKey rest) w1 \<noteq> []"
    using length_attempts [of operation "clients envKey rest" w1] by (auto simp: clients_def)
  show ?case
    using Cons.IH [OF a, of "Some e" "tr0 @ [(createAi envKey (Some key), r1)]"] ne
    unfolding step outs by (auto simp add: clients_Cons r1)
qed

lemma setApiKeys_not_empty: "\<forall>k\<in>set (setApiKeys keys). k \<noteq> []"
  by (auto simp: setApiKeys_def trim_def)

lemma clients_not_empty:
  "\<forall>k\<in>set keys. k \<noteq> [] \<Longrightarrow> map apiKey (clients envKey keys) = map Some keys"
  by (induction keys) (simp_all add: clients_def createAi_def)

lemma executeWithRetry_cases:
  assumes ne: "customKeys \<noteq> []"
    and run: "executeWithRetry envKey customKeys (recording operation) (w, []) = (r, (w', tr))"
  obtains (exhausted)
      "\<forall>i<length customKeys. rotates (attempts operation (clients envKey customKeys) w ! i)"
      "r = last (attempts operation (clients envKey customKeys) w)"
      "tr = zip (clients envKey customKeys) (attempts operation (clients envKey customKeys) w)"
  | (stopped) k where
      "k < length customKeys"
      "\<forall>i<k. rotates (attempts operation (clients envKey customKeys) w ! i)"
      "\<not> rotates (attempts operation (clients envKey customKeys) w ! k)"
      "r = attempts operation (clients envKey customKeys) w ! k"
      "tr = take (Suc k) (zip (clients envKey customKeys) (attempts operation (clients envKey customKeys) w))"
proof -
  let ?outs = "attempts operation (clients envKey customKeys) w"
  have run': "tryKeys envKey (recording operation) customKeys None (w, []) = (r, (w', tr))"
    using ne run by (simp add: executeWithRetry_def)
  show thesis
  proof (cases "\<forall>i<length customKeys. rotates (?outs ! i)")
    case True
    from tryKeys_exhaust [OF True, of None "[]"] run' ne
    have "r = last ?outs" "tr = zip (clients envKey customKeys) ?outs" by simp_all
    with True show thesis by (rule exhausted)
  next
    case False
    define P where "P = (\<lambda>i. i < length customKeys \<and> \<not> rotates (?outs ! i))"
    from False have ex: "\<exists>i. P i" by (auto simp: P_def)
    define k where "k = (LEAST i. P i)"
    have Pk: "P k" unfolding k_def using ex by (auto intro: LeastI)
    have least: "\<forall>i<k. \<not> P i" unfolding k_def using not_less_Least by blast
    have a: "k < length customKeys" and c: "\<not> rotates (?outs ! k)" using Pk by (simp_all add: P_def)
    have b: "\<forall>i<k. rotates (?outs ! i)" using least a by (auto simp: P_def)
    from tryKeys_stop [OF a b c, of None "[]"] run'
    have "r = ?outs ! k" "tr = take (Suc k) (zip (clients envKey customKeys) ?outs)" by simp_all
    with a b c show thesis by (rule stopped)
  qed
qed

text \<open>
  Claim C1. For a non-empty credential store and any operation, the executor invokes the
  operation with the clients of the credentials in store order: the trace of a run is a
  prefix of the store's clients paired with the outcomes the operation gives them, it is
  not empty and not longer than the store. When no stored credential is the empty
  string, as after \<open>setApiKeys\<close>, the keys of these clients are the stored credentials
  themselves. An invocation that succeeds is the last one of the trace, and its value is
  what the executor returns. Observing the run does not change it.
\<close>

theorem executeWithRetry_store_order_first_success:
  assumes ne: "customKeys \<noteq> []"
    and run: "executeWithRetry envKey customKeys (recording operation) (w, []) = (r, (w', tr))"
  shows "tr \<noteq> [] \<and> length tr \<le> length customKeys
       \<and> map fst tr = take (length tr) (clients envKey customKeys)
       \<and> map snd tr = take (length tr) (attempts operation (clients envKey customKeys) w)
       \<and> ((\<forall>k\<in>set customKeys. k \<noteq> []) \<longrightarrow>
            map (\<lambda>a. apiKey (fst a)) tr = map Some (take (length tr) customKeys))
       \<and> r = snd (last tr)
       \<and> (\<forall>i<length tr. \<forall>v. snd (tr ! i) = Inr v \<longrightarrow> Suc i = length tr \<and> r = Inr v)
       \<and> executeWithRetry envKey customKeys operation w = (r, w')"
proof -
  let ?ais = "clients envKey customKeys"
  let ?outs = "attempts operation ?ais w"
  have len: "length ?outs = length customKeys" "length ?ais = length customKeys"
    by (simp_all add: length_attempts length_clients)
  have tr: "executeWithRetry envKey customKeys operation w = (r, w')"
    using ne run tryKeys_recording [of envKey operation customKeys None w "[]" r w' tr]
    by (simp add: executeWithRetry_def)
  from ne run show ?thesis
  proof (cases rule: executeWithRetry_cases)
    case exhausted
    have l: "length tr = length customKeys" using exhausted(3) len by simp
    have nonempty: "tr \<noteq> []" using l ne by auto
    have m1: "map fst tr = take (length tr) ?ais" using exhausted(3) len by simp
    have m2: "map snd tr = take (length tr) ?outs" using exhausted(3) len by simp
    have lst: "r = snd (last tr)"
      using exhausted(2) m2 nonempty l len by (metis last_map take_all order_refl)
    have nosucc: "\<forall>i<length tr. \<forall>v. snd (tr ! i) \<noteq> Inr v"
    proof (intro allI impI)
      fix i v assume i: "i < length tr"
      then have "snd (tr ! i) = ?outs ! i" using exhausted(3) len by simp
      moreover have "rotates (?outs ! i)" using exhausted(1) i l by simp
      ultimately show "snd (tr ! i) \<noteq> Inr v" using rotates_Inr by metis
    qed
    have m3: "(\<forall>k\<in>set customKeys. k \<noteq> []) \<longrightarrow>
            map (\<lambda>a. apiKey (fst a)) tr = map Some (take (length tr) customKeys)"
    proof
      assume "\<forall>k\<in>set customKeys. k \<noteq> []"
      then have "map apiKey ?ais = map Some customKeys" by (rule clients_not_empty)
      then have "map apiKey (map fst tr) = map Some (take (length tr) customKeys)"
        unfolding m1 by (metis take_map)
      then show "map (\<lambda>a. apiKey (fst a)) tr = map Some (take (length tr) customKeys)"
        by (simp add: comp_def)
    qed
    show ?thesis using l nonempty m1 m2 m3 lst nosucc tr by auto
  next
    case (stopped k)
    have l: "length tr = Suc k" using stopped(1,5) len by simp
    have nonempty: "tr \<noteq> []" using l by auto
    have m1: "map fst tr = take (length tr) ?ais" using stopped(5) l len by (simp add: take_map [symmetric] take_zip)
    have m2: "map snd tr = take (length tr) ?outs" using stopped(5) l len by (simp add: take_zip)
    have nth: "\<And>i. i < Suc k \<Longrightarrow> snd (tr ! i) = ?outs ! i"
      using stopped(1,5) len by simp
    have lst: "r = snd (last tr)"
      using nth [of k] stopped(4) l nonempty by (simp add: last_conv_nth)
    have succ: "\<forall>i<length tr. \<forall>v. snd (tr ! i) = Inr v \<longrightarrow> Suc i = length tr \<and> r = Inr v"
    proof (intro allI impI)
      fix i v assume i: "i < length tr" and s: "snd (tr ! i) = Inr v"
      have "\<not> i < k"
      proof
        assume "i < k"
        then have "rotates (?outs ! i)" using stopped(2) by simp
        moreover have "snd (tr ! i) = ?outs ! i" using nth i l by simp
        ultimately show False using s rotates_Inr by metis
      qed
      then have "i = k" using i l by simp
      then show "Suc i = length tr \<and> r = Inr v" using l s nth [of k] stopped(4) by simp
    qed
    have m3: "(\<forall>k\<in>set customKeys. k \<noteq> []) \<longrightarrow>
            map (\<lambda>a. apiKey (fst a)) tr = map Some (take (length tr) customKeys)"
    proof
      assume "\<forall>k\<in>set customKeys. k \<noteq> []"
      then have "map apiKey ?ais = map Some customKeys" by (rule clients_not_empty)
      then have "map apiKey (map fst tr) = map Some (take (length tr) customKeys)"
        unfolding m1 by (metis take_map)
      then show "map (\<lambda>a. apiKey (fst a)) tr = map Some (take (length tr) customKeys)"
        by (simp add: comp_def)
    qed
    show ?thesis using l stopped(1) nonempty m1 m2 m3 lst succ tr by auto
  qed
qed

theorem executeWithRetry_store_order_first_success_witness:
  "[''k1'', ''k2'', ''k3''] \<noteq> []
   \<and> executeWithRetry None [''k1'', ''k2'', ''k3''] (recording scripted)
        ([Inl (Error ''Error'' (Some ''429 Too Many Requests'')), Inr (7::nat), Inr 8], [])
      = (Inr 7, ([Inr 8],
           [(GoogleGenAI (Some ''k1''), Inl (Error ''Error'' (Some ''429 Too Many Requests''))),
            (GoogleGenAI (Some ''k2''), Inr 7)]))
   \<and> executeWithRetry None [''k1'', ''k2'', ''k3''] scripted
        [Inl (Error ''Error'' (Some ''429 Too Many Requests'')), Inr (7::nat), Inr 8]
      = (Inr 7, [Inr 8])"
proof -
  have ne: "[''k1'', ''k2'', ''k3''] \<noteq> []" by simp
  have run: "executeWithRetry None [''k1'', ''k2'', ''k3''] (recording scripted)
        ([Inl (Error ''Error'' (Some ''429 Too Many Requests'')), Inr (7::nat), Inr 8], [])
      = (Inr 7, ([Inr 8],
           [(GoogleGenAI (Some ''k1''), Inl (Error ''Error'' (Some ''429 Too Many Requests''))),
            (GoogleGenAI (Some ''k2''), Inr 7)]))"
    by (simp add: executeWithRetry_def recording_apply createAi_def isRetryable_def
          str_includes_def sublist_code)
  from executeWithRetry_store_order_first_success [OF ne run] ne run show ?thesis by simp
qed

text \<open>
  Claim C2. For a non-empty store of \<open>N\<close> credentials on which every outcome of the
  operation is a failure classified retryable, the executor makes exactly \<open>N\<close> attempts,
  one per credential in store order, and raises the failure of the last attempt, the one
  made with the \<open>N\<close>-th credential.
\<close>

theorem executeWithRetry_all_retryable_exhausts:
  assumes ne: "customKeys \<noteq> []"
    and allrot: "\<forall>i<length customKeys. rotates (attempts operation (clients envKey customKeys) w ! i)"
    and run: "executeWithRetry envKey customKeys (recording operation) (w, []) = (r, (w', tr))"
  shows "length tr = length customKeys
       \<and> map fst tr = clients envKey customKeys
       \<and> map snd tr = attempts operation (clients envKey customKeys) w
       \<and> r = snd (last tr)
       \<and> r = last (attempts operation (clients envKey customKeys) w)
       \<and> (\<exists>e. r = Inl e \<and> isRetryable e)"
proof -
  let ?ais = "clients envKey customKeys"
  let ?outs = "attempts operation ?ais w"
  have len: "length ?outs = length customKeys" "length ?ais = length customKeys"
    by (simp_all add: length_attempts length_clients)
  have run': "tryKeys envKey (recording operation) customKeys None (w, []) = (r, (w', tr))"
    using ne run by (simp add: executeWithRetry_def)
  from tryKeys_exhaust [OF allrot, of None "[]"] run' ne
  have r: "r = last ?outs" and tr: "tr = zip ?ais ?outs" by simp_all
  have l: "length tr = length customKeys" using tr len by simp
  have m1: "map fst tr = ?ais" and m2: "map snd tr = ?outs" using tr len by simp_all
  have nonempty: "tr \<noteq> []" "?outs \<noteq> []" using l len ne by auto
  have lst: "r = snd (last tr)" using r m2 nonempty by (metis last_map)
  have "r = ?outs ! (length customKeys - 1)"
    using r nonempty len by (simp add: last_conv_nth)
  moreover have "rotates (?outs ! (length customKeys - 1))" using allrot ne by simp
  ultimately have "rotates r" by simp
  then have "\<exists>e. r = Inl e \<and> isRetryable e" by (cases r) (simp_all add: rotates_def)
  with l m1 m2 lst r show ?thesis by simp
qed

theorem executeWithRetry_all_retryable_exhausts_witness:
  "executeWithRetry None [''k1'', ''k2''] (recording scripted)
        ([Inl (Error ''Error'' (Some ''429 Too Many Requests'')),
          Inl (Error ''Error'' (Some ''quota exceeded''))] :: (error + nat) list, [])
      = (Inl (Error ''Error'' (Some ''quota exceeded'')), ([],
           [(GoogleGenAI (Some ''k1''), Inl (Error ''Error'' (Some ''429 Too Many Requests''))),
            (GoogleGenAI (Some ''k2''), Inl (Error ''Error'' (Some ''quota exceeded'')))]))
   \<and> rotates (Inl (Error ''Error'' (Some ''429 Too Many Requests'')) :: error + nat)
   \<and> rotates (Inl (Error ''Error'' (Some ''quota exceeded'')) :: error + nat)"
proof -
  let ?s = "[Inl (Error ''Error'' (Some ''429 Too Many Requests'')),
          Inl (Error ''Error'' (Some ''quota exceeded''))] :: (error + nat) list"
  have ne: "[''k1'', ''k2''] \<noteq> []" by simp
  have r1: "rotates (Inl (Error ''Error'' (Some ''429 Too Many Requests'')) :: error + nat)"
    by (simp add: rotates_def isRetryable_def str_includes_def sublist_code)
  have r2: "rotates (Inl (Error ''Error'' (Some ''quota exceeded'')) :: error + nat)"
    by (simp add: rotates_def isRetryable_def str_includes_def sublist_code)
  have outs: "attempts scripted (clients None [''k1'', ''k2'']) ?s = ?s"
    by (simp add: clients_def)
  have allrot: "\<forall>i<length [''k1'', ''k2'']. rotates (attempts scripted (clients None [''k1'', ''k2'']) ?s ! i)"
    unfolding outs using r1 r2 by (simp add: less_Suc_eq)
  have run: "executeWithRetry None [''k1'', ''k2''] (recording scripted) (?s, [])
      = (Inl (Error ''Error'' (Some ''quota exceeded'')), ([],
           [(GoogleGenAI (Some ''k1''), Inl (Error ''Error'' (Some ''429 Too Many Requests''))),
            (GoogleGenAI (Some ''k2''), Inl (Error ''Error'' (Some ''quota exceeded'')))]))"
    by (simp add: executeWithRetry_def recording_apply createAi_def isRetryable_def
          str_includes_def sublist_code)
  from executeWithRetry_all_retryable_exhausts [OF ne allrot run] run r1 r2 show ?thesis by simp
qed

text \<open>
  Claim C3. When the outcomes at the positions before \<open>k\<close> (counted from 0) are failures
  classified retryable and the outcome at position \<open>k\<close> is a failure \<open>e\<close> that is not, the
  executor makes exactly \<open>k + 1\<close> attempts, with the first \<open>k + 1\<close> credentials in store
  order, and raises \<open>e\<close> itself; no credential after position \<open>k\<close> is used.
\<close>

theorem executeWithRetry_non_retryable_stops:
  assumes k: "k < length customKeys"
    and before: "\<forall>i<k. rotates (attempts operation (clients envKey customKeys) w ! i)"
    and at: "attempts operation (clients envKey customKeys) w ! k = Inl e"
    and nr: "\<not> isRetryable e"
    and run: "executeWithRetry envKey customKeys (recording operation) (w, []) = (r, (w', tr))"
  shows "r = Inl e
       \<and> length tr = Suc k
       \<and> map fst tr = take (Suc k) (clients envKey customKeys)
       \<and> map snd tr = take (Suc k) (attempts operation (clients envKey customKeys) w)
       \<and> last tr = (clients envKey customKeys ! k, Inl e)"
proof -
  let ?ais = "clients envKey customKeys"
  let ?outs = "attempts operation ?ais w"
  have len: "length ?outs = length customKeys" "length ?ais = length customKeys"
    by (simp_all add: length_attempts length_clients)
  have ne: "customKeys \<noteq> []" using k by auto
  have run': "tryKeys envKey (recording operation) customKeys None (w, []) = (r, (w', tr))"
    using ne run by (simp add: executeWithRetry_def)
  have c: "\<not> rotates (?outs ! k)" using at nr by (simp add: rotates_def)
  from tryKeys_stop [OF k before c, of None "[]"] run'
  have r: "r = ?outs ! k" and tr: "tr = take (Suc k) (zip ?ais ?outs)" by simp_all
  have l: "length tr = Suc k" using tr k len by simp
  have m1: "map fst tr = take (Suc k) ?ais" using tr len by (simp add: take_map [symmetric] take_zip)
  have m2: "map snd tr = take (Suc k) ?outs" using tr len by (simp add: take_zip)
  have "last tr = tr ! k" using l by (metis diff_Suc_1 last_conv_nth length_0_conv nat.distinct(1))
  also have "\<dots> = (?ais ! k, ?outs ! k)" using tr k len by simp
  finally have lst: "last tr = (?ais ! k, Inl e)" using at by simp
  from r at l m1 m2 lst show ?thesis by simp
qed

theorem executeWithRetry_non_retryable_stops_witness:
  "executeWithRetry None [''k1'', ''k2'', ''k3''] (recording scripted)
        ([Inl (Error ''Error'' (Some ''403 Forbidden'')),
          Inl (Error ''Error'' (Some ''400 Bad Request'')), Inr 5] :: (error + nat) list, [])
      = (Inl (Error ''Error'' (Some ''400 Bad Request'')), ([Inr 5],
           [(GoogleGenAI (Some ''k1''), Inl (Error ''Error'' (Some ''403 Forbidden''))),
            (GoogleGenAI (Some ''k2''), Inl (Error ''Error'' (Some ''400 Bad Request'')))]))
   \<and> rotates (Inl (Error ''Error'' (Some ''403 Forbidden'')) :: error + nat)
   \<and> \<not> isRetryable (Error ''Error'' (Some ''400 Bad Request''))"
proof -
  let ?s = "[Inl (Error ''Error'' (Some ''403 Forbidden'')),
          Inl (Error ''Error'' (Some ''400 Bad Request'')), Inr 5] :: (error + nat) list"
  have k: "(1::nat) < length [''k1'', ''k2'', ''k3'']" by simp
  have r1: "rotates (Inl (Error ''Error'' (Some ''403 Forbidden'')) :: error + nat)"
    by (simp add: rotates_def isRetryable_def str_includes_def sublist_code)
  have nr: "\<not> isRetryable (Error ''Error'' (Some ''400 Bad Request''))"
    by (simp add: isRetryable_def str_includes_def sublist_code)
  have outs: "attempts scripted (clients None [''k1'', ''k2'', ''k3'']) ?s = ?s"
    by (simp add: clients_def)
  have before: "\<forall>i<1::nat. rotates (attempts scripted (clients None [''k1'', ''k2'', ''k3'']) ?s ! i)"
    unfolding outs using r1 by simp
  have at: "attempts scripted (clients None [''k1'', ''k2'', ''k3'']) ?s ! 1
            = Inl (Error ''Error'' (Some ''400 Bad Request''))"
    unfolding outs by simp
  have run: "executeWithRetry None [''k1'', ''k2'', ''k3''] (recording scripted) (?s, [])
      = (Inl (Error ''Error'' (Some ''400 Bad Request'')), ([Inr 5],
           [(GoogleGenAI (Some ''k1''), Inl (Error ''Error'' (Some ''403 Forbidden''))),
            (GoogleGenAI (Some ''k2''), Inl (Error ''Error'' (Some ''400 Bad Request'')))]))"
    by (simp add: executeWithRetry_def recording_apply createAi_def isRetryable_def
          str_includes_def sublist_code)
  from executeWithRetry_non_retryable_stops [OF k before at nr run] run r1 nr show ?thesis by simp
qed

section \<open>Properties of the classification\<close>

text \<open>
  The message of an invalid credential carries none of the listed signals, and yet it is
  classified retryable and makes the executor rotate to the second credential: the
  source also looks for the substring \<open>key\<close>.
\<close>

theorem listed_signals_counterexample:
  "\<not> listedSignal ''API key not valid. Please pass a valid API key.''
   \<and> isRetryable (Error ''Error'' (Some ''API key not valid. Please pass a valid API key.''))
   \<and> executeWithRetry None [''k1'', ''k2''] (recording scripted)
        ([Inl (Error ''Error'' (Some ''API key not valid. Please pass a valid API key.'')),
          Inr (1::nat)], [])
      = (Inr 1, ([],
           [(GoogleGenAI (Some ''k1''),
             Inl (Error ''Error'' (Some ''API key not valid. Please pass a valid API key.''))),
            (GoogleGenAI (Some ''k2''), Inr 1)]))"
  by (simp add: listedSignal_def executeWithRetry_def recording_apply createAi_def isRetryable_def
        str_includes_def sublist_code)

lemma isRetryable_iff:
  "isRetryable err \<longleftrightarrow>
     (\<exists>m. message err = Some m \<and>
          (\<exists>s\<in>set [''429'', ''403'', ''quota'', ''key'', ''PERMISSION_DENIED'', ''RESOURCE_EXHAUSTED''].
             \<exists>pre post. m = pre @ s @ post))"
  by (cases "message err") (auto simp add: isRetryable_def str_includes_def sublist_def)

text \<open>
  Claim C4, as amended. A failure is classified retryable exactly when it has a message
  that contains one of the substrings \<open>429\<close>, \<open>403\<close>, \<open>quota\<close>, \<open>key\<close>,
  \<open>PERMISSION_DENIED\<close> and \<open>RESOURCE_EXHAUSTED\<close> (compared code unit by code unit). In a
  run on a non-empty store this classification decides every attempt that fails,
  whatever its position: the executor goes on to a further attempt exactly when the
  failure is classified retryable and a credential is left; a failure that is not
  classified retryable is the last attempt and is what the executor raises.
\<close>

theorem isRetryable_signals_and_rotation:
  assumes ne: "customKeys \<noteq> []"
    and run: "executeWithRetry envKey customKeys (recording operation) (w, []) = (r, (w', tr))"
  shows "\<forall>i<length tr. \<forall>err. snd (tr ! i) = Inl err \<longrightarrow>
           (isRetryable err \<longleftrightarrow>
              (\<exists>m. message err = Some m \<and>
                 (\<exists>s\<in>set [''429'', ''403'', ''quota'', ''key'', ''PERMISSION_DENIED'', ''RESOURCE_EXHAUSTED''].
                    \<exists>pre post. m = pre @ s @ post)))
           \<and> (Suc i < length tr \<longleftrightarrow> isRetryable err \<and> Suc i < length customKeys)
           \<and> (\<not> isRetryable err \<longrightarrow> Suc i = length tr \<and> r = Inl err)"
proof (intro allI impI)
  fix i err
  assume i: "i < length tr" and f: "snd (tr ! i) = Inl err"
  let ?ais = "clients envKey customKeys"
  let ?outs = "attempts operation ?ais w"
  have len: "length ?outs = length customKeys" "length ?ais = length customKeys"
    by (simp_all add: length_attempts length_clients)
  have rot: "(Suc i < length tr \<longleftrightarrow> isRetryable err \<and> Suc i < length customKeys)
             \<and> (\<not> isRetryable err \<longrightarrow> Suc i = length tr \<and> r = Inl err)"
    using ne run
  proof (cases rule: executeWithRetry_cases)
    case exhausted
    have l: "length tr = length customKeys" using exhausted(3) len by simp
    have "snd (tr ! i) = ?outs ! i" using exhausted(3) i l len by simp
    moreover have "rotates (?outs ! i)" using exhausted(1) i l by simp
    ultimately have "isRetryable err" using f by (metis rotates_Inl)
    then show ?thesis using l by simp
  next
    case (stopped k)
    have l: "length tr = Suc k" using stopped(1,5) len by simp
    have nth: "snd (tr ! i) = ?outs ! i" using stopped(1,5) i l len by simp
    show ?thesis
    proof (cases "i < k")
      case True
      then have "rotates (?outs ! i)" using stopped(2) by simp
      then have "isRetryable err" using nth f by (metis rotates_Inl)
      then show ?thesis using True l stopped(1) by simp
    next
      case False
      then have ik: "i = k" using i l by simp
      have "\<not> rotates (?outs ! k)" by (rule stopped(3))
      then have nr: "\<not> isRetryable err" using nth f ik by (metis rotates_Inl)
      have "r = Inl err" using stopped(4) nth f ik by simp
      then show ?thesis using nr ik l by simp
    qed
  qed
  from isRetryable_iff [of err] rot
  show "(isRetryable err \<longleftrightarrow>
              (\<exists>m. message err = Some m \<and>
                 (\<exists>s\<in>set [''429'', ''403'', ''quota'', ''key'', ''PERMISSION_DENIED'', ''RESOURCE_EXHAUSTED''].
                    \<exists>pre post. m = pre @ s @ post)))
           \<and> (Suc i < length tr \<longleftrightarrow> isRetryable err \<and> Suc i < length customKeys)
           \<and> (\<not> isRetryable err \<longrightarrow> Suc i = length tr \<and> r = Inl err)"
    by blast
qed

theorem isRetryable_signals_and_rotation_witness:
  "executeWithRetry None [''k1'', ''k2'', ''k3''] (recording scripted)
        ([Inl (Error ''Error'' (Some ''RESOURCE_EXHAUSTED'')),
          Inl (Error ''Error'' (Some ''400 Bad Request'')), Inr (1::nat)], [])
      = (Inl (Error ''Error'' (Some ''400 Bad Request'')), ([Inr 1],
           [(GoogleGenAI (Some ''k1''), Inl (Error ''Error'' (Some ''RESOURCE_EXHAUSTED''))),
            (GoogleGenAI (Some ''k2''), Inl (Error ''Error'' (Some ''400 Bad Request'')))]))
   \<and> isRetryable (Error ''Error'' (Some ''RESOURCE_EXHAUSTED''))
   \<and> \<not> isRetryable (Error ''Error'' (Some ''400 Bad Request''))"
proof -
  let ?e1 = "Error ''Error'' (Some ''RESOURCE_EXHAUSTED'')"
  let ?e2 = "Error ''Error'' (Some ''400 Bad Request'')"
  let ?tr = "[(GoogleGenAI (Some ''k1''), Inl ?e1), (GoogleGenAI (Some ''k2''), (Inl ?e2 :: error + nat))]"
  have ne: "[''k1'', ''k2'', ''k3''] \<noteq> []" by simp
  have run: "executeWithRetry None [''k1'', ''k2'', ''k3''] (recording scripted)
        ([Inl ?e1, Inl ?e2, Inr (1::nat)], [])
      = (Inl ?e2, ([Inr 1], ?tr))"
    by (simp add: executeWithRetry_def recording_apply createAi_def isRetryable_def
          str_includes_def sublist_code)
  note th = isRetryable_signals_and_rotation [OF ne run, rule_format]
  have i0: "(0::nat) < length ?tr" and s0: "snd (?tr ! 0) = Inl ?e1" by simp_all
  have i1: "(1::nat) < length ?tr" and s1: "snd (?tr ! 1) = Inl ?e2" by simp_all
  have "Suc 0 < length ?tr \<longleftrightarrow> isRetryable ?e1 \<and> Suc 0 < length [''k1'', ''k2'', ''k3'']"
    using th [OF i0 s0] by blast
  then have r1: "isRetryable ?e1" by simp
  have "Suc 1 < length ?tr \<longleftrightarrow> isRetryable ?e2 \<and> Suc 1 < length [''k1'', ''k2'', ''k3'']"
    using th [OF i1 s1] by blast
  then have r2: "\<not> isRetryable ?e2" by simp
  from run r1 r2 show ?thesis by blast
qed

section \<open>Properties of the history\<close>

lemma filter_same_key_singleton:
  "distinct (map f xs) \<Longrightarrow> x \<in> set xs \<Longrightarrow> filter (\<lambda>i. f i = f x) xs = [x]"
proof (induction xs)
  case Nil
  then show ?case by simp
next
  case (Cons y ys)
  show ?case
  proof (cases "y = x")
    case True
    have "f x \<notin> f ` set ys" using Cons.prems(1) True by simp
    then have "\<forall>i\<in>set ys. f i \<noteq> f x" by (metis imageI)
    then have "filter (\<lambda>i. f i = f x) ys = []" by (simp add: filter_empty_conv)
    with True show ?thesis by simp
  next
    case False
    with Cons.prems have x: "x \<in> set ys" by simp
    then have "f y \<noteq> f x" using Cons.prems(1) by auto
    with Cons.IH x Cons.prems(1) show ?thesis by simp
  qed
qed

lemma filter_other_keys_remove1:
  "filter (\<lambda>i. f i = f x) xs = [x] \<Longrightarrow> filter (\<lambda>i. f i \<noteq> f x) xs = remove1 x xs"
proof (induction xs)
  case Nil
  then show ?case by simp
next
  case (Cons y ys)
  show ?case
  proof (cases "f y = f x")
    case True
    with Cons.prems have yx: "y = x" and e: "filter (\<lambda>i. f i = f x) ys = []" by simp_all
    from e have "filter (\<lambda>i. f i \<noteq> f x) ys = ys" by (auto simp: filter_empty_conv filter_id_conv)
    with yx show ?thesis by simp
  next
    case False
    with Cons.prems have "filter (\<lambda>i. f i = f x) ys = [x]" by simp
    from Cons.IH [OF this] False show ?thesis by auto
  qed
qed

lemma mset_split_by_key:
  "mset xs = mset (filter (\<lambda>i. f i = k) xs) + mset (filter (\<lambda>i. f i \<noteq> k) xs)"
  by (induction xs) simp_all

lemma restoreImage_any_history:
  "hd (restoreImage imageHistory img) = img
   \<and> filter (\<lambda>i. id_img i \<noteq> id_img img) (restoreImage imageHistory img)
       = filter (\<lambda>i. id_img i \<noteq> id_img img) imageHistory
   \<and> filter (\<lambda>i. id_img i = id_img img) (restoreImage imageHistory img) = [img]"
  by (simp add: restoreImage_def filter_empty_conv)

lemma restoreImage_only_with_its_id:
  assumes only: "filter (\<lambda>i. id_img i = id_img img) imageHistory = [img]"
  shows "restoreImage imageHistory img = img # remove1 img imageHistory
         \<and> mset (restoreImage imageHistory img) = mset imageHistory"
proof -
  let ?others = "filter (\<lambda>i. id_img i \<noteq> id_img img) imageHistory"
  have r: "restoreImage imageHistory img = img # ?others" by (simp add: restoreImage_def)
  have "?others = remove1 img imageHistory" using only by (rule filter_other_keys_remove1)
  moreover have "mset imageHistory = {#img#} + mset ?others"
    using mset_split_by_key [of imageHistory id_img "id_img img"] only by simp
  ultimately show ?thesis by (simp add: r)
qed

text \<open>
  Claim C10. The ids of a history are unique tokens: no two of its entries share an id.
  Restoring an entry of such a history gives the entry followed by the old history
  without it, so the entry is the newest element and its earlier occurrence is gone;
  the other entries keep their relative order; the new history has no duplicate id; and
  it holds exactly the entries of the old one, each once, reordered and not copied.
\<close>

theorem restoreImage_reorders:
  assumes mem: "img \<in> set imageHistory"
    and dist: "distinct (map id_img imageHistory)"
  shows "restoreImage imageHistory img = img # remove1 img imageHistory
       \<and> img \<notin> set (tl (restoreImage imageHistory img))
       \<and> filter (\<lambda>i. i \<noteq> img) (restoreImage imageHistory img)
           = filter (\<lambda>i. i \<noteq> img) imageHistory
       \<and> distinct (map id_img (restoreImage imageHistory img))
       \<and> mset (restoreImage imageHistory img) = mset imageHistory
       \<and> length (restoreImage imageHistory img) = length imageHistory"
proof -
  let ?others = "filter (\<lambda>i. id_img i \<noteq> id_img img) imageHistory"
  have r: "restoreImage imageHistory img = img # ?others" by (simp add: restoreImage_def)
  have only: "filter (\<lambda>i. id_img i = id_img img) imageHistory = [img]"
    using dist mem by (rule filter_same_key_singleton)
  note o = restoreImage_only_with_its_id [OF only]
  have a: "restoreImage imageHistory img = img # remove1 img imageHistory" using o by blast
  have e: "mset (restoreImage imageHistory img) = mset imageHistory" using o by blast
  have dh: "distinct imageHistory" using dist by (simp add: distinct_map)
  have rm: "remove1 img imageHistory = filter (\<lambda>i. i \<noteq> img) imageHistory"
    using dh by (simp add: distinct_remove1_removeAll removeAll_filter_not_eq eq_commute)
  have b: "img \<notin> set (tl (restoreImage imageHistory img))" using a rm by simp
  have c: "filter (\<lambda>i. i \<noteq> img) (restoreImage imageHistory img)
           = filter (\<lambda>i. i \<noteq> img) imageHistory"
    using a rm by simp
  have "distinct (map id_img ?others)" using dist by (rule distinct_map_filter)
  moreover have "id_img img \<notin> set (map id_img ?others)" by auto
  ultimately have d: "distinct (map id_img (restoreImage imageHistory img))" by (simp add: r)
  have f: "length (restoreImage imageHistory img) = length imageHistory"
    using e by (metis size_mset)
  from a b c d e f show ?thesis by blast
qed

theorem restoreImage_reorders_witness:
  "restoreImage
     [\<lparr>id_img = ''3'', imageData = ''c'', prompt = ''p'', timestamp = 3, level = ''l'', style = ''s'',
        language = ''e'', imageArticleContent = ''x''\<rparr>,
      \<lparr>id_img = ''2'', imageData = ''b'', prompt = ''p'', timestamp = 2, level = ''l'', style = ''s'',
        language = ''e'', imageArticleContent = ''x''\<rparr>,
      \<lparr>id_img = ''1'', imageData = ''a'', prompt = ''p'', timestamp = 1, level = ''l'', style = ''s'',
        language = ''e'', imageArticleContent = ''x''\<rparr>]
     \<lparr>id_img = ''2'', imageData = ''b'', prompt = ''p'', timestamp = 2, level = ''l'', style = ''s'',
       language = ''e'', imageArticleContent = ''x''\<rparr>
   = [\<lparr>id_img = ''2'', imageData = ''b'', prompt = ''p'', timestamp = 2, level = ''l'', style = ''s'',
        language = ''e'', imageArticleContent = ''x''\<rparr>,
      \<lparr>id_img = ''3'', imageData = ''c'', prompt = ''p'', timestamp = 3, level = ''l'', style = ''s'',
        language = ''e'', imageArticleContent = ''x''\<rparr>,
      \<lparr>id_img = ''1'', imageData = ''a'', prompt = ''p'', timestamp = 1, level = ''l'', style = ''s'',
        language = ''e'', imageArticleContent = ''x''\<rparr>]"
proof -
  let ?a = "\<lparr>id_img = ''1'', imageData = ''a'', prompt = ''p'', timestamp = 1, level = ''l'', style = ''s'',
        language = ''e'', imageArticleContent = ''x''\<rparr>"
  let ?b = "\<lparr>id_img = ''2'', imageData = ''b'', prompt = ''p'', timestamp = 2, level = ''l'', style = ''s'',
        language = ''e'', imageArticleContent = ''x''\<rparr>"
  let ?c = "\<lparr>id_img = ''3'', imageData = ''c'', prompt = ''p'', timestamp = 3, level = ''l'', style = ''s'',
        language = ''e'', imageArticleContent = ''x''\<rparr>"
  have mem: "?b \<in> set [?c, ?b, ?a]" by simp
  have dist: "distinct (map id_img [?c, ?b, ?a])" by simp
  from restoreImage_reorders [OF mem dist]
  have "restoreImage [?c, ?b, ?a] ?b = ?b # remove1 ?b [?c, ?b, ?a]" by blast
  then show ?thesis by simp
qed

section \<open>Properties of the image orchestrator\<close>




lemma generateOperation_provider_failure:
  "generateContent ai
     \<lparr>model = IMAGE_MODEL, contents = [\<lparr>partText = Some promptText, inlineData = None\<rparr>]\<rparr> w
   = (Inl err, w')
   \<Longrightarrow> generateOperation generateContent promptText ai w = (Inl err, w')"
  by (simp add: generateOperation_def)




section \<open>Properties of the grounding citations\<close>

lemma collectResults_map_filter: "collectResults cs = List.map_filter webReference cs"
  by (induction cs)
     (auto simp: webReference_def truthy_def map_filter_simps split: option.splits)

lemma newMap_snoc: "newMap (es @ [(k, v)]) = mapSet (newMap es) k v"
  by (simp add: newMap_def)

lemma keys_mapSet:
  "map fst (mapSet m k v) = (if k \<in> set (map fst m) then map fst m else map fst m @ [k])"
  by (induction m) force+

lemma map_of_mapSet: "map_of (mapSet m k v) = (map_of m)(k \<mapsto> v)"
  by (induction m) (auto simp: fun_eq_iff)

lemma keys_newMap: "map fst (newMap es) = rev (remdups (rev (map fst es)))"
proof (induction es rule: rev_induct)
  case Nil
  show ?case by (simp add: newMap_def)
next
  case (snoc e es)
  obtain k v where e: "e = (k, v)" by (cases e)
  have "set (map fst (newMap es)) = set (map fst es)" using snoc.IH by simp
  then show ?case using snoc.IH by (simp add: e newMap_snoc keys_mapSet)
qed

lemma distinct_keys_newMap: "distinct (map fst (newMap es))"
  by (simp add: keys_newMap)

lemma map_of_newMap: "map_of (newMap es) = map_of (rev es)"
proof (induction es rule: rev_induct)
  case Nil
  show ?case by (simp add: newMap_def)
next
  case (snoc e es)
  obtain k v where e: "e = (k, v)" by (cases e)
  show ?case using snoc.IH by (simp add: e newMap_snoc map_of_mapSet)
qed

lemma map_of_keyed: "map_of (map (\<lambda>i. (f i, i)) xs) k = find (\<lambda>i. f i = k) xs"
  by (induction xs) auto

lemma newMap_keyed_entry:
  assumes "(k, r) \<in> set (newMap (map (\<lambda>i. (f i, i)) xs))"
  shows "find (\<lambda>i. f i = k) (rev xs) = Some r \<and> f r = k"
proof -
  let ?es = "map (\<lambda>i. (f i, i)) xs"
  have "map_of (newMap ?es) k = Some r"
    using assms distinct_keys_newMap [of ?es] by simp
  then have "map_of (rev ?es) k = Some r" by (simp add: map_of_newMap)
  then have "find (\<lambda>i. f i = k) (rev xs) = Some r" by (simp add: rev_map map_of_keyed)
  then show ?thesis by (auto simp: find_Some_iff)
qed

lemma uniqueResults_urls:
  "map url (uniqueResults found) = rev (remdups (rev (map url found)))"
proof -
  let ?es = "map (\<lambda>item. (url item, item)) found"
  have "\<forall>e\<in>set (newMap ?es). url (snd e) = fst e"
    using newMap_keyed_entry [of _ _ url found] by auto
  then have "map url (map snd (newMap ?es)) = map fst (newMap ?es)" by simp
  then show ?thesis by (simp add: uniqueResults_def mapValues_def keys_newMap comp_def)
qed

lemma uniqueResults_last:
  assumes "r \<in> set (uniqueResults found)"
  shows "find (\<lambda>i. url i = url r) (rev found) = Some r"
proof -
  from assms obtain k where "(k, r) \<in> set (newMap (map (\<lambda>item. (url item, item)) found))"
    by (auto simp: uniqueResults_def mapValues_def)
  from newMap_keyed_entry [OF this] show ?thesis by simp
qed

text \<open>
  Claim C7. The search results of the research result are made from the web references
  of the response's chunks, a chunk whose title or URI is missing giving none. No two
  results share a URL; the URLs stand in the order of their first occurrence among the
  references; and each result is the last reference that has its URL, so it carries the
  title of the last occurrence.
\<close>

theorem searchResults_deduplicated:
  assumes "found = List.map_filter webReference (chunkList response)"
    and "rs = searchResults (parseResearch topic lvl sty response)"
  shows "rs = uniqueResults found
       \<and> distinct (map url rs)
       \<and> set (map url rs) = set (map url found)
       \<and> map url rs = rev (remdups (rev (map url found)))
       \<and> (\<forall>r\<in>set rs. find (\<lambda>i. url i = url r) (rev found) = Some r)"
proof -
  have "(case responseChunks response of None \<Rightarrow> [] | Some cs \<Rightarrow> collectResults cs)
        = collectResults (chunkList response)"
    by (simp add: chunkList_def split: option.splits)
  then have a: "rs = uniqueResults found"
    using assms by (simp add: parseResearch_def Let_def collectResults_map_filter)
  have b: "map url rs = rev (remdups (rev (map url found)))"
    using a by (simp add: uniqueResults_urls)
  have c: "distinct (map url rs)" using b by simp
  have d: "set (map url rs) = set (map url found)" using b by simp
  have e: "\<forall>r\<in>set rs. find (\<lambda>i. url i = url r) (rev found) = Some r"
    using a uniqueResults_last by blast
  from a b c d e show ?thesis by blast
qed

theorem searchResults_deduplicated_witness:
  "searchResults (parseResearch ''Photosynthesis'' ''Elementary'' ''Default''
     \<lparr>responseText = None,
      candidates = Some [\<lparr>content = None,
        groundingMetadata = Some \<lparr>groundingChunks = Some
          [\<lparr>web = Some \<lparr>uri = Some ''https://a.org'', webTitle = Some ''First''\<rparr>\<rparr>,
           \<lparr>web = Some \<lparr>uri = Some ''https://c.org'', webTitle = None\<rparr>\<rparr>,
           \<lparr>web = Some \<lparr>uri = Some ''https://b.org'', webTitle = Some ''Other''\<rparr>\<rparr>,
           \<lparr>web = Some \<lparr>uri = Some ''https://a.org'', webTitle = Some ''Second''\<rparr>\<rparr>]\<rparr>\<rparr>]\<rparr>)
   = [\<lparr>title = ''Second'', url = ''https://a.org''\<rparr>, \<lparr>title = ''Other'', url = ''https://b.org''\<rparr>]"
proof -
  let ?response = "\<lparr>responseText = None,
      candidates = Some [\<lparr>content = None,
        groundingMetadata = Some \<lparr>groundingChunks = Some
          [\<lparr>web = Some \<lparr>uri = Some ''https://a.org'', webTitle = Some ''First''\<rparr>\<rparr>,
           \<lparr>web = Some \<lparr>uri = Some ''https://c.org'', webTitle = None\<rparr>\<rparr>,
           \<lparr>web = Some \<lparr>uri = Some ''https://b.org'', webTitle = Some ''Other''\<rparr>\<rparr>,
           \<lparr>web = Some \<lparr>uri = Some ''https://a.org'', webTitle = Some ''Second''\<rparr>\<rparr>]\<rparr>\<rparr>]\<rparr>"
  let ?found = "[\<lparr>title = ''First'', url = ''https://a.org''\<rparr>,
                 \<lparr>title = ''Other'', url = ''https://b.org''\<rparr>,
                 \<lparr>title = ''Second'', url = ''https://a.org''\<rparr>]"
  have f: "?found = List.map_filter webReference (chunkList ?response)"
    by (simp add: chunkList_def responseChunks_def firstCandidate_def webReference_def
          map_filter_simps)
  have "searchResults (parseResearch ''Photosynthesis'' ''Elementary'' ''Default'' ?response)
        = uniqueResults ?found"
    using searchResults_deduplicated [OF f refl, of "''Photosynthesis''" "''Elementary''" "''Default''"]
    by blast
  also have "\<dots> = [\<lparr>title = ''Second'', url = ''https://a.org''\<rparr>, \<lparr>title = ''Other'', url = ''https://b.org''\<rparr>]"
    by (simp add: uniqueResults_def newMap_def mapValues_def)
  finally show ?thesis .
qed

section \<open>Properties of the edit request\<close>

lemma editRequest_recognised:
  assumes "ty \<in> {''png'', ''jpeg'', ''jpg''}"
  shows "editRequest (''data:image/'' @ ty @ '';base64,'' @ payload) editPrompt
         = \<lparr>model = EDIT_MODEL,
            contents =
              [\<lparr>partText = None,
                inlineData = Some \<lparr>data = Some payload, mimeType = Some (''image/'' @ ty)\<rparr>\<rparr>,
               \<lparr>partText = Some editPrompt, inlineData = None\<rparr>]\<rparr>"
  using assms
  by (auto simp: editRequest_def cleanBase64_def matchMimeType_def startsWith_def isTypeChar_def)

lemma editRequest_default_mime:
  assumes "matchMimeType currentImageBase64 = None"
  shows "map (map_option mimeType) (map inlineData (contents (editRequest currentImageBase64 editPrompt)))
         = [Some (Some ''image/png''), None]"
  using assms by (simp add: editRequest_def)

text \<open>
  Claim C8 at the input \<open>data:image/webp;base64,UklGRg==\<close>: the type is detected as
  \<open>image/webp\<close>, but the data sent is the whole data URI, prefix included, since the
  pattern that strips the prefix knows only \<open>png\<close>, \<open>jpeg\<close> and \<open>jpg\<close>.
\<close>

theorem editRequest_webp_keeps_prefix:
  "editRequest ''data:image/webp;base64,UklGRg=='' ''make it blue''
   = \<lparr>model = EDIT_MODEL,
      contents =
        [\<lparr>partText = None,
          inlineData = Some \<lparr>data = Some ''data:image/webp;base64,UklGRg=='',
                             mimeType = Some ''image/webp''\<rparr>\<rparr>,
         \<lparr>partText = Some ''make it blue'', inlineData = None\<rparr>]\<rparr>"
  by (simp add: editRequest_def cleanBase64_def matchMimeType_def startsWith_def isTypeChar_def)

section \<open>Properties of the research parser\<close>

lemma matchLiteral_exact:
  "map canonicalize h = map canonicalize hdr \<Longrightarrow> matchLiteral hdr (h @ rest)"
proof -
  assume a: "map canonicalize h = map canonicalize hdr"
  then have "length h = length hdr" by (metis length_map)
  with a show ?thesis by (simp add: matchLiteral_def)
qed

lemma searchHeader_None_iff: "searchHeader hdr str = None \<longleftrightarrow> headerAbsent hdr str"
proof (induction str)
  case Nil
  show ?case by (simp add: headerAbsent_def)
next
  case (Cons c cs)
  have "headerAbsent hdr (c # cs) \<longleftrightarrow> \<not> matchLiteral hdr (c # cs) \<and> headerAbsent hdr cs"
  proof
    assume h: "headerAbsent hdr (c # cs)"
    have "\<not> matchLiteral hdr (c # cs)" using h [unfolded headerAbsent_def, rule_format, of 0] by simp
    moreover have "headerAbsent hdr cs"
      unfolding headerAbsent_def
    proof (intro allI impI)
      fix i assume "i \<le> length cs"
      then show "\<not> matchLiteral hdr (drop i cs)"
        using h [unfolded headerAbsent_def, rule_format, of "Suc i"] by simp
    qed
    ultimately show "\<not> matchLiteral hdr (c # cs) \<and> headerAbsent hdr cs" ..
  next
    assume h: "\<not> matchLiteral hdr (c # cs) \<and> headerAbsent hdr cs"
    show "headerAbsent hdr (c # cs)"
      unfolding headerAbsent_def
    proof (intro allI impI)
      fix i assume i: "i \<le> length (c # cs)"
      show "\<not> matchLiteral hdr (drop i (c # cs))"
      proof (cases i)
        case 0
        with h show ?thesis by simp
      next
        case (Suc j)
        with i h show ?thesis by (simp add: headerAbsent_def)
      qed
    qed
  qed
  with Cons.IH show ?case by simp
qed

lemma searchHeader_here:
  "matchLiteral hdr s \<Longrightarrow> searchHeader hdr s = Some (drop (length hdr) s)"
  by (cases s) simp_all

lemma searchHeader_first:
  "firstHeader hdr str pre h rest \<Longrightarrow> searchHeader hdr str = Some rest"
proof (induction pre arbitrary: str)
  case Nil
  then have t: "str = h @ rest" and m: "map canonicalize h = map canonicalize hdr"
    by (simp_all add: firstHeader_def)
  have l: "length h = length hdr" using m by (metis length_map)
  have "matchLiteral hdr str" using t m by (simp add: matchLiteral_exact)
  from searchHeader_here [OF this] show ?case using t l by simp
next
  case (Cons c pre)
  from Cons.prems have t: "str = c # (pre @ h @ rest)" and m: "map canonicalize h = map canonicalize hdr"
    and no: "\<forall>i<Suc (length pre). \<not> matchLiteral hdr (drop i str)"
    by (auto simp: firstHeader_def)
  have n0: "\<not> matchLiteral hdr str" using no [rule_format, of 0] by simp
  have "firstHeader hdr (pre @ h @ rest) pre h rest"
    unfolding firstHeader_def
  proof (intro conjI allI impI)
    fix i assume "i < length pre"
    then show "\<not> matchLiteral hdr (drop i (pre @ h @ rest))"
      using no [rule_format, of "Suc i"] t by simp
  qed (simp_all add: m)
  from Cons.IH [OF this] n0 t show ?case by simp
qed

lemma searchHeader_Some:
  "searchHeader hdr str = Some rest \<Longrightarrow> \<exists>pre h. firstHeader hdr str pre h rest"
proof (induction str)
  case Nil
  then have "matchLiteral hdr []" and "rest = []" by (simp_all split: if_splits)
  then have "firstHeader hdr [] [] [] rest" by (simp add: firstHeader_def matchLiteral_def)
  then show ?case by blast
next
  case (Cons c cs)
  show ?case
  proof (cases "matchLiteral hdr (c # cs)")
    case True
    with Cons.prems have r: "rest = drop (length hdr) (c # cs)" by simp
    from True have len: "length hdr \<le> length (c # cs)"
      and m: "map canonicalize (take (length hdr) (c # cs)) = map canonicalize hdr"
      by (simp_all add: matchLiteral_def)
    have "firstHeader hdr (c # cs) [] (take (length hdr) (c # cs)) rest"
      unfolding firstHeader_def using r m by simp
    then show ?thesis by blast
  next
    case False
    with Cons.prems have "searchHeader hdr cs = Some rest" by simp
    from Cons.IH [OF this] obtain pre h where f: "firstHeader hdr cs pre h rest" by blast
    have "firstHeader hdr (c # cs) (c # pre) h rest"
      unfolding firstHeader_def
    proof (intro conjI allI impI)
      fix i assume i: "i < length (c # pre)"
      show "\<not> matchLiteral hdr (drop i (c # cs))"
      proof (cases i)
        case 0
        with False show ?thesis by simp
      next
        case (Suc j)
        with i have "j < length pre" by simp
        with f have "\<not> matchLiteral hdr (drop j cs)" unfolding firstHeader_def by blast
        with Suc show ?thesis by simp
      qed
    qed (use f in \<open>simp_all add: firstHeader_def\<close>)
    then show ?thesis by blast
  qed
qed

lemma headerAbsent_or_first:
  "headerAbsent hdr str \<or> (\<exists>pre h rest. firstHeader hdr str pre h rest)"
proof (cases "searchHeader hdr str")
  case None
  then show ?thesis by (simp add: searchHeader_None_iff)
next
  case (Some rest)
  from searchHeader_Some [OF this] show ?thesis by blast
qed




lemma lazyUntil_no_stops: "lazyUntil [] s = s"
  by (induction s) simp_all


lemma matchSection_None_iff: "matchSection hdr stops str = None \<longleftrightarrow> headerAbsent hdr str"
  by (simp add: matchSection_def searchHeader_None_iff [symmetric] split: option.splits)



lemma trim_empty_iff: "trim s = [] \<longleftrightarrow> (\<forall>c\<in>set s. isSpace c)"
proof
  assume "trim s = []"
  then have "dropWhile isSpace (rev (dropWhile isSpace s)) = []" by (simp add: trim_def)
  then have "\<forall>c\<in>set (dropWhile isSpace s). isSpace c" by (simp add: dropWhile_eq_Nil_conv)
  then have "dropWhile isSpace s = []"
    using hd_dropWhile [of isSpace s] by (cases "dropWhile isSpace s") auto
  then show "\<forall>c\<in>set s. isSpace c" by (simp add: dropWhile_eq_Nil_conv)
next
  assume "\<forall>c\<in>set s. isSpace c"
  then have d: "dropWhile isSpace s = []" by (simp add: dropWhile_eq_Nil_conv)
  show "trim s = []" unfolding trim_def d by simp
qed

lemma trim_dropWhile: "trim (dropWhile isSpace s) = trim s"
  by (simp add: trim_def dropWhile_idem)


























lemma facts_scenario:
  "parseFacts ''FACTS:\<newline>- Plants use sunlight\<newline>ARTICLE:\<newline># Photosynthesis\<newline>Plants convert light.\<newline>IMAGE_PROMPT:\<newline>A bright cartoon leaf.''
   = [''Plants use sunlight'']"
  by code_simp

text \<open>
  A response whose \<open>IMAGE_PROMPT:\<close> header is followed by white space only: the pattern
  matches, the group is empty, and the image prompt is the empty string.
\<close>

theorem imagePrompt_empty_counterexample:
  "imagePrompt (parseResearch ''Photosynthesis'' ''Elementary'' ''Default''
     \<lparr>responseText = Some ''FACTS:\<newline>- Plants\<newline>IMAGE_PROMPT:\<newline>'', candidates = None\<rparr>)
   = []"
  by (simp add: parseResearch_def Let_def parseImagePrompt_def matchSection_def matchLiteral_def
        canonicalize_def trim_def isSpace_def)

lemma imagePrompt_parseResearch:
  "imagePrompt (parseResearch topic lvl sty response)
   = parseImagePrompt topic (getLevelInstruction lvl) (getStyleInstruction sty)
       (case responseText response of None \<Rightarrow> [] | Some t \<Rightarrow> t)"
  by (simp add: parseResearch_def Let_def)

lemma parseImagePrompt_absent:
  "headerAbsent ''IMAGE_PROMPT:'' str
   \<Longrightarrow> parseImagePrompt topic levelInstr styleInstr str
       = ''Create a detailed infographic about '' @ topic @ ''. '' @ levelInstr @ '' '' @ styleInstr"
proof -
  assume "headerAbsent ''IMAGE_PROMPT:'' str"
  then have "matchSection ''IMAGE_PROMPT:'' [] str = None" by (simp add: matchSection_None_iff)
  then show ?thesis by (simp add: parseImagePrompt_def)
qed

lemma parseImagePrompt_present:
  "firstHeader ''IMAGE_PROMPT:'' str pre h rest
   \<Longrightarrow> parseImagePrompt topic levelInstr styleInstr str = trim rest"
proof -
  assume "firstHeader ''IMAGE_PROMPT:'' str pre h rest"
  then have "searchHeader ''IMAGE_PROMPT:'' str = Some rest" by (rule searchHeader_first)
  then show ?thesis
    by (simp add: parseImagePrompt_def matchSection_def lazyUntil_no_stops trim_dropWhile)
qed

text \<open>
  Claim C6, as amended. When the text has no \<open>IMAGE_PROMPT:\<close> header, the image prompt
  is the synthesized prompt, which is not empty and contains the topic. When the header
  is present, the image prompt is the trimmed text after its first occurrence, to the
  end of the text. One of the two is the case. The image prompt is empty exactly when
  the header is present and only white space follows its first occurrence.
\<close>

theorem imagePrompt_section_or_fallback:
  assumes "str = (case responseText response of None \<Rightarrow> [] | Some t \<Rightarrow> t)"
  shows "(headerAbsent ''IMAGE_PROMPT:'' str \<longrightarrow>
            imagePrompt (parseResearch topic lvl sty response)
              = ''Create a detailed infographic about '' @ topic @ ''. ''
                  @ getLevelInstruction lvl @ '' '' @ getStyleInstruction sty
            \<and> imagePrompt (parseResearch topic lvl sty response) \<noteq> []
            \<and> str_includes (imagePrompt (parseResearch topic lvl sty response)) topic)
       \<and> (\<forall>pre h rest. firstHeader ''IMAGE_PROMPT:'' str pre h rest \<longrightarrow>
             imagePrompt (parseResearch topic lvl sty response) = trim rest)
       \<and> (headerAbsent ''IMAGE_PROMPT:'' str
            \<or> (\<exists>pre h rest. firstHeader ''IMAGE_PROMPT:'' str pre h rest))
       \<and> (imagePrompt (parseResearch topic lvl sty response) = []
            \<longleftrightarrow> (\<exists>pre h rest. firstHeader ''IMAGE_PROMPT:'' str pre h rest
                              \<and> (\<forall>c\<in>set rest. isSpace c)))"
proof -
  let ?p = "imagePrompt (parseResearch topic lvl sty response)"
  let ?fallback = "''Create a detailed infographic about '' @ topic @ ''. ''
                  @ getLevelInstruction lvl @ '' '' @ getStyleInstruction sty"
  have p: "?p = parseImagePrompt topic (getLevelInstruction lvl) (getStyleInstruction sty) str"
    using assms by (simp add: imagePrompt_parseResearch)
  have inc: "str_includes ?fallback topic"
    unfolding str_includes_def sublist_def by blast
  have ne: "?fallback \<noteq> []" by simp
  have a: "headerAbsent ''IMAGE_PROMPT:'' str \<longrightarrow>
             ?p = ?fallback \<and> ?p \<noteq> [] \<and> str_includes ?p topic"
  proof
    assume "headerAbsent ''IMAGE_PROMPT:'' str"
    then have "?p = ?fallback" unfolding p by (rule parseImagePrompt_absent)
    with inc ne show "?p = ?fallback \<and> ?p \<noteq> [] \<and> str_includes ?p topic" by simp
  qed
  have b: "\<forall>pre h rest. firstHeader ''IMAGE_PROMPT:'' str pre h rest \<longrightarrow> ?p = trim rest"
    unfolding p using parseImagePrompt_present by blast
  have c: "headerAbsent ''IMAGE_PROMPT:'' str
            \<or> (\<exists>pre h rest. firstHeader ''IMAGE_PROMPT:'' str pre h rest)"
    by (rule headerAbsent_or_first)
  have d: "?p = [] \<longleftrightarrow> (\<exists>pre h rest. firstHeader ''IMAGE_PROMPT:'' str pre h rest
                              \<and> (\<forall>c\<in>set rest. isSpace c))"
  proof
    assume e: "?p = []"
    with a have "\<not> headerAbsent ''IMAGE_PROMPT:'' str" by blast
    with c obtain pre h rest where f: "firstHeader ''IMAGE_PROMPT:'' str pre h rest" by blast
    with b e have "trim rest = []" by metis
    then have "\<forall>c\<in>set rest. isSpace c" by (simp add: trim_empty_iff)
    with f show "\<exists>pre h rest. firstHeader ''IMAGE_PROMPT:'' str pre h rest
                              \<and> (\<forall>c\<in>set rest. isSpace c)" by blast
  next
    assume "\<exists>pre h rest. firstHeader ''IMAGE_PROMPT:'' str pre h rest \<and> (\<forall>c\<in>set rest. isSpace c)"
    then obtain pre h rest where f: "firstHeader ''IMAGE_PROMPT:'' str pre h rest"
      and w: "\<forall>c\<in>set rest. isSpace c" by blast
    from w have "trim rest = []" by (simp add: trim_empty_iff)
    with b f show "?p = []" by metis
  qed
  from a b c d show ?thesis by blast
qed

theorem imagePrompt_section_or_fallback_witness:
  "firstHeader ''IMAGE_PROMPT:'' ''ARTICLE: x\<newline>image_prompt:\<newline>A leaf. '' ''ARTICLE: x\<newline>''
     ''image_prompt:'' ''\<newline>A leaf. ''
   \<and> imagePrompt (parseResearch ''Photosynthesis'' ''Elementary'' ''Default''
        \<lparr>responseText = Some ''ARTICLE: x\<newline>image_prompt:\<newline>A leaf. '', candidates = None\<rparr>)
     = ''A leaf.''"
proof -
  let ?str = "''ARTICLE: x\<newline>image_prompt:\<newline>A leaf. ''"
  let ?response = "\<lparr>responseText = Some ?str, candidates = None\<rparr>"
  have str: "?str = (case responseText ?response of None \<Rightarrow> [] | Some t \<Rightarrow> t)" by simp
  have fh: "firstHeader ''IMAGE_PROMPT:'' ?str ''ARTICLE: x\<newline>'' ''image_prompt:'' ''\<newline>A leaf. ''"
    by (simp add: firstHeader_def matchLiteral_def canonicalize_def All_less_Suc
          char_of_def bit_simps)
  have "imagePrompt (parseResearch ''Photosynthesis'' ''Elementary'' ''Default'' ?response)
        = trim ''\<newline>A leaf. ''"
    using imagePrompt_section_or_fallback
            [OF str, of "''Photosynthesis''" "''Elementary''" "''Default''"] fh
    by blast
  also have "\<dots> = ''A leaf.''" by (simp add: trim_def isSpace_def)
  finally show ?thesis using fh by simp
qed

end
